theory Spec2Isabelle
  imports Complex_Main
begin

section \<open>Exceptions and collaborators\<close>

text \<open>
  The Python exceptions the modelled code can raise or pass on. \<open>ProviderError\<close> stands
  for whatever the OpenAI client raises (network, quota, malformed response); its
  payload is the message. A raised exception is the \<open>Inl\<close> branch of a result.
\<close>

datatype error =
    KeyError string
  | IndexError
  | ValueError string
  | FileNotFoundError
  | JSONDecodeError
  | EOFError
  | ZeroDivisionError
  | ProviderError string

text \<open>
  \<open>client.embeddings.create(model=..., input=batch)\<close> followed by reading
  \<open>[e.embedding for e in response.data]\<close>: the provider takes a batch of texts and
  answers with a list of vectors, or raises. A float is modelled by the real number it
  denotes.
\<close>

type_synonym client = "string list \<Rightarrow> error + real list list"

section \<open>faq\_search\_demo.py: the engine and its snapshot\<close>

text \<open>The fields \<open>__init__\<close> sets on \<open>FAQSearchEngine\<close> (the client is passed separately).\<close>

record engine =
  vectors_file :: string
  vectors :: "real list list"
  questions :: "string list"
  answers :: "string list"
  sections :: "string list"

text \<open>
  One entry of the JSON snapshot, as far as \<open>load_vectors\<close> reads it: \<open>item['values']\<close>
  and \<open>item['metadata'][key]\<close>. A missing key is \<open>None\<close>.
\<close>

record item =
  item_values :: "real list option"
  item_metadata :: "(string \<rightharpoonup> string) option"

definition get_values :: "item \<Rightarrow> error + real list" where
  "get_values it =
     (case item_values it of None \<Rightarrow> Inl (KeyError ''values'') | Some v \<Rightarrow> Inr v)"

definition get_meta :: "string \<Rightarrow> item \<Rightarrow> error + string" where
  "get_meta k it =
     (case item_metadata it of
        None \<Rightarrow> Inl (KeyError ''metadata'')
      | Some m \<Rightarrow> (case m k of None \<Rightarrow> Inl (KeyError k) | Some s \<Rightarrow> Inr s))"

text \<open>
  A list comprehension \<open>[f(x) for x in xs]\<close> whose body may raise: the first failing
  element aborts it, and nothing is produced.
\<close>

fun collect :: "('a \<Rightarrow> error + 'b) \<Rightarrow> 'a list \<Rightarrow> error + 'b list" where
  "collect f [] = Inr []"
| "collect f (x # xs) =
     (case f x of
        Inl e \<Rightarrow> Inl e
      | Inr y \<Rightarrow> (case collect f xs of Inl e \<Rightarrow> Inl e | Inr ys \<Rightarrow> Inr (y # ys)))"

text \<open>
  \<open>load_vectors\<close>: the argument \<open>src\<close> is what \<open>open\<close> and \<open>json.load\<close> deliver (the
  parsed entries, or the exception they raise). The four assignments happen one after
  the other, each after its comprehension has finished; both handlers re-raise. The
  result is the exception raised, if any, and the engine as the call leaves it.
\<close>

definition load_vectors :: "(error + item list) \<Rightarrow> engine \<Rightarrow> error option \<times> engine" where
  "load_vectors src eng =
     (case src of
        Inl e \<Rightarrow> (Some e, eng)
      | Inr data \<Rightarrow>
          (case collect get_values data of
             Inl e \<Rightarrow> (Some e, eng)
           | Inr vs \<Rightarrow>
               (let eng1 = eng\<lparr>vectors := vs\<rparr> in
                case collect (get_meta ''question'') data of
                  Inl e \<Rightarrow> (Some e, eng1)
                | Inr qs \<Rightarrow>
                    (let eng2 = eng1\<lparr>questions := qs\<rparr> in
                     case collect (get_meta ''answer'') data of
                       Inl e \<Rightarrow> (Some e, eng2)
                     | Inr ans \<Rightarrow>
                         (let eng3 = eng2\<lparr>answers := ans\<rparr> in
                          case collect (get_meta ''section'') data of
                            Inl e \<Rightarrow> (Some e, eng3)
                          | Inr ss \<Rightarrow> (None, eng3\<lparr>sections := ss\<rparr>))))))"

text \<open>
  \<open>__init__\<close>: empty lists, the API key check, then \<open>load_vectors\<close>. An exception leaves
  the caller without an engine.
\<close>

definition init_engine :: "string \<Rightarrow> string option \<Rightarrow> (error + item list) \<Rightarrow> error + engine" where
  "init_engine file api_key src =
     (let eng = \<lparr>vectors_file = file, vectors = [], questions = [], answers = [],
                 sections = []\<rparr> in
      case api_key of
        None \<Rightarrow> Inl (ValueError ''OPENAI_API_KEY environment variable not set'')
      | Some key \<Rightarrow>
          if key = [] then Inl (ValueError ''OPENAI_API_KEY environment variable not set'')
          else (case load_vectors src eng of
                  (Some e, _) \<Rightarrow> Inl e
                | (None, eng') \<Rightarrow> Inr eng'))"

section \<open>Library functions the search calls\<close>

text \<open>
  \<open>search\<close> calls two functions that are not part of the repository:
  \<open>sklearn.metrics.pairwise.cosine_similarity([a], [b])[0][0]\<close>, which returns a score
  or raises, and \<open>np.argsort\<close>, which returns indices. They are parameters of the model.
\<close>

record library =
  cosine_similarity :: "real list \<Rightarrow> real list \<Rightarrow> error + real"
  argsort :: "real list \<Rightarrow> nat list"

text \<open>
  What \<open>np.argsort(xs)\<close> promises: a permutation of the indices of \<open>xs\<close> that puts the
  values in ascending order. The default sort kind is not stable, so nothing is
  promised about the order of indices with equal values.
\<close>

definition argsort_ok :: "library \<Rightarrow> real list \<Rightarrow> bool" where
  "argsort_ok lib xs =
     (distinct (argsort lib xs) \<and> set (argsort lib xs) = {0..<length xs}
      \<and> sorted (map (\<lambda>i. xs ! i) (argsort lib xs)))"

text \<open>
  One sort that keeps this promise: insertion sort of the indices, which leaves equal
  values in index order.
\<close>

definition stable_argsort :: "real list \<Rightarrow> nat list" where
  "stable_argsort xs = sort_key (\<lambda>i. xs ! i) [0..<length xs]"

definition dot :: "real list \<Rightarrow> real list \<Rightarrow> real" where
  "dot a b = sum_list (map2 (*) a b)"

definition l2_norm :: "real list \<Rightarrow> real" where
  "l2_norm a = sqrt (dot a a)"

text \<open>Division that fails on a zero divisor.\<close>

definition divide_checked :: "real \<Rightarrow> real \<Rightarrow> error + real" where
  "divide_checked x y = (if y = 0 then Inl ZeroDivisionError else Inr (x / y))"

text \<open>
  Modelled from the spec: the similarity function is sklearn's and is not under src/.
  Section 4.3 gives \<open>sim(a,b) = (a\<cdot>b) / (||a|| * ||b||)\<close>, defined as \<open>0\<close> when either
  vector has zero norm; a query whose length is not the stored dimension is an error
  (section 7), which the library raises as \<open>ValueError\<close>.
\<close>

definition spec_cosine :: "real list \<Rightarrow> real list \<Rightarrow> error + real" where
  "spec_cosine a b =
     (if length a \<noteq> length b
        then Inl (ValueError ''Incompatible dimension for X and Y matrices'')
      else if l2_norm a = 0 \<or> l2_norm b = 0 then Inr 0
      else divide_checked (dot a b) (l2_norm a * l2_norm b))"

text \<open>The slice \<open>xs[:k]\<close>; a negative \<open>k\<close> counts from the end.\<close>

definition slice_to :: "int \<Rightarrow> 'a list \<Rightarrow> 'a list" where
  "slice_to k xs =
     (if 0 \<le> k then take (nat k) xs else take (length xs - nat (- k)) xs)"

section \<open>faq\_search\_demo.py: embedding the query and searching\<close>

text \<open>
  \<open>embed_query\<close> sends the one-element batch \<open>[query]\<close> and returns
  \<open>response.data[0].embedding\<close>; its handler prints and re-raises.
\<close>

definition embed_query :: "client \<Rightarrow> string \<Rightarrow> error + real list" where
  "embed_query cl query =
     (case cl [query] of
        Inl e \<Rightarrow> Inl e
      | Inr [] \<Rightarrow> Inl IndexError
      | Inr (v # _) \<Rightarrow> Inr v)"

text \<open>
  One result dictionary. \<open>similarity_percentage\<close> holds the number that the source
  renders with one decimal and a percent sign.
\<close>

record result =
  rank :: nat
  question :: string
  answer :: string
  section_name :: string
  similarity_score :: real
  similarity_percentage :: real

text \<open>The loop \<open>for vector in self.vectors\<close> filling \<open>similarities\<close>.\<close>

definition similarities :: "library \<Rightarrow> real list \<Rightarrow> real list list \<Rightarrow> error + real list" where
  "similarities lib query_embedding vs = collect (cosine_similarity lib query_embedding) vs"

text \<open>\<open>np.argsort(similarities)[::-1][:top_k]\<close>\<close>

definition top_indices :: "library \<Rightarrow> real list \<Rightarrow> int \<Rightarrow> nat list" where
  "top_indices lib sims top_k = slice_to top_k (rev (argsort lib sims))"

definition make_result :: "engine \<Rightarrow> real list \<Rightarrow> nat \<Rightarrow> nat \<Rightarrow> result" where
  "make_result eng sims n idx =
     \<lparr>rank = n + 1,
      question = questions eng ! idx,
      answer = answers eng ! idx,
      section_name = sections eng ! idx,
      similarity_score = sims ! idx,
      similarity_percentage = sims ! idx * 100\<rparr>"

text \<open>
  The loop \<open>for idx in top_indices\<close>, appending to \<open>results\<close>; indexing a list out of
  range raises \<open>IndexError\<close>.
\<close>

fun build_results :: "engine \<Rightarrow> real list \<Rightarrow> nat list \<Rightarrow> result list \<Rightarrow> error + result list" where
  "build_results eng sims [] results = Inr results"
| "build_results eng sims (idx # rest) results =
     (if idx < length (questions eng) \<and> idx < length (answers eng)
         \<and> idx < length (sections eng) \<and> idx < length sims
      then build_results eng sims rest (results @ [make_result eng sims (length results) idx])
      else Inl IndexError)"

text \<open>The body of \<open>search\<close> after the query has been embedded (the spec's \<open>rank\<close>).\<close>

definition search_vector ::
  "library \<Rightarrow> engine \<Rightarrow> real list \<Rightarrow> int \<Rightarrow> error + result list" where
  "search_vector lib eng query_embedding top_k =
     (case similarities lib query_embedding (vectors eng) of
        Inl e \<Rightarrow> Inl e
      | Inr sims \<Rightarrow> build_results eng sims (top_indices lib sims top_k) [])"

definition search ::
  "library \<Rightarrow> client \<Rightarrow> engine \<Rightarrow> string \<Rightarrow> int \<Rightarrow> error + result list" where
  "search lib cl eng query top_k =
     (case embed_query cl query of
        Inl e \<Rightarrow> Inl e
      | Inr query_embedding \<Rightarrow> search_vector lib eng query_embedding top_k)"

text \<open>
  The engine satisfies what \<open>load_vectors\<close> establishes: the four parallel lists have
  one length.
\<close>

definition aligned :: "engine \<Rightarrow> bool" where
  "aligned eng =
     (length (questions eng) = length (vectors eng)
      \<and> length (answers eng) = length (vectors eng)
      \<and> length (sections eng) = length (vectors eng))"

text \<open>The results \<open>search\<close> builds from a list of indices, ranks counted from 1.\<close>

definition results_of :: "engine \<Rightarrow> real list \<Rightarrow> nat list \<Rightarrow> result list" where
  "results_of eng sims idxs = map (\<lambda>(n, idx). make_result eng sims n idx) (enumerate 0 idxs)"

section \<open>faq\_search\_demo.py: the interactive loop\<close>

text \<open>
  Strings are lists of 8-bit characters, read as code points below 256. \<open>str.strip()\<close>
  removes leading and trailing characters for which \<open>isspace()\<close> holds; \<open>str.lower()\<close>
  maps the upper-case letters (ASCII and Latin-1) to lower case.
\<close>

definition isspace :: "char \<Rightarrow> bool" where
  "isspace c =
     (let n = (of_char c :: nat) in
      (9 \<le> n \<and> n \<le> 13) \<or> (28 \<le> n \<and> n \<le> 32) \<or> n = 133 \<or> n = 160)"

definition strip :: "string \<Rightarrow> string" where
  "strip s = rev (dropWhile isspace (rev (dropWhile isspace s)))"

definition lower_char :: "char \<Rightarrow> char" where
  "lower_char c =
     (let n = (of_char c :: nat) in
      if (65 \<le> n \<and> n \<le> 90) \<or> (192 \<le> n \<and> n \<le> 222 \<and> n \<noteq> 215)
      then char_of (n + 32) else c)"

definition lower :: "string \<Rightarrow> string" where
  "lower s = map lower_char s"

text \<open>
  What one call of \<open>input()\<close> delivers: a line, \<open>KeyboardInterrupt\<close>, or \<open>EOFError\<close> at the
  end of the input. The input source gives the outcome of the \<open>n\<close>-th call.
\<close>

datatype input_event = Line string | Interrupt | EndOfInput

text \<open>
  What \<open>interactive_search\<close> prints, one constructor per \<open>print\<close> or group of prints;
  \<open>Prompt\<close> is the prompt \<open>input()\<close> writes before it reads.
\<close>

datatype printed =
    Banner
  | Prompt
  | Goodbye
  | Searching string
  | Shown "result list"
  | NoResults
  | BlankLine
  | ErrorMsg error
  | TryAgain

text \<open>
  The \<open>while True\<close> loop of \<open>interactive_search\<close>, from the \<open>n\<close>-th call of \<open>input()\<close> on,
  with the output printed so far. \<open>break\<close> returns the output; a run that never
  breaks has no value. \<open>EOFError\<close> is an \<open>Exception\<close>, so the last handler catches it and
  the loop goes on.
\<close>

partial_function (option) interactive_loop ::
  "library \<Rightarrow> client \<Rightarrow> engine \<Rightarrow> (nat \<Rightarrow> input_event) \<Rightarrow> nat \<Rightarrow> printed list
     \<Rightarrow> printed list option" where
  "interactive_loop lib cl eng inp n out =
     (case inp n of
        Interrupt \<Rightarrow> Some (out @ [Prompt, Goodbye])
      | EndOfInput \<Rightarrow>
          interactive_loop lib cl eng inp (n + 1) (out @ [Prompt, ErrorMsg EOFError, TryAgain])
      | Line s \<Rightarrow>
          if lower (strip s) \<in> set [''quit'', ''exit'', ''q'']
          then Some (out @ [Prompt, Goodbye])
          else if strip s = [] then interactive_loop lib cl eng inp (n + 1) (out @ [Prompt])
          else (case search lib cl eng (strip s) 3 of
                  Inl e \<Rightarrow>
                    interactive_loop lib cl eng inp (n + 1)
                      (out @ [Prompt, Searching (strip s), ErrorMsg e, TryAgain])
                | Inr results \<Rightarrow>
                    interactive_loop lib cl eng inp (n + 1)
                      (out @ [Prompt, Searching (strip s),
                              if results = [] then NoResults else Shown results,
                              BlankLine])))"

definition interactive_search ::
  "library \<Rightarrow> client \<Rightarrow> engine \<Rightarrow> (nat \<Rightarrow> input_event) \<Rightarrow> printed list option" where
  "interactive_search lib cl eng inp = interactive_loop lib cl eng inp 0 [Banner]"

section \<open>embed\_aven\_faq.py: batch embedding\<close>

definition batch_size :: nat where
  "batch_size = 100"

text \<open>The vector \<open>[0.0] * 1536\<close> that stands in for a text of a failed batch.\<close>

definition zero_embedding :: "real list" where
  "zero_embedding = replicate 1536 0"

text \<open>
  The lines \<open>create_embeddings\<close> prints: the batch number and the number of batches on
  success, the batch number and the exception on failure.
\<close>

datatype log_line = Embedded nat nat | EmbedError nat error

text \<open>
  The loop \<open>for i in range(0, len(questions), batch_size)\<close>, from index \<open>i\<close> on, with the
  embeddings and the printed lines so far.
\<close>

function embed_loop ::
  "client \<Rightarrow> string list \<Rightarrow> nat \<Rightarrow> real list list \<Rightarrow> log_line list
     \<Rightarrow> real list list \<times> log_line list" where
  "embed_loop cl qs i embeddings logged =
     (if i < length qs then
        (let batch = take batch_size (drop i qs) in
         case cl batch of
           Inr batch_embeddings \<Rightarrow>
             embed_loop cl qs (i + batch_size) (embeddings @ batch_embeddings)
               (logged @ [Embedded (i div batch_size + 1)
                         ((length qs + batch_size - 1) div batch_size)])
         | Inl e \<Rightarrow>
             embed_loop cl qs (i + batch_size)
               (embeddings @ replicate (length batch) zero_embedding)
               (logged @ [EmbedError (i div batch_size + 1) e]))
      else (embeddings, logged))"
  by pat_completeness auto
termination
  by (relation "measure (\<lambda>(cl, qs, i, embeddings, logged). length qs - i)")
     (auto simp: batch_size_def)

declare embed_loop.simps [simp del]

definition create_embeddings :: "client \<Rightarrow> string list \<Rightarrow> real list list \<times> log_line list" where
  "create_embeddings cl qs = embed_loop cl qs 0 [] []"

text \<open>
  The provider's contract: a batch that is answered is answered with one vector per
  text.
\<close>

definition well_behaved :: "client \<Rightarrow> bool" where
  "well_behaved cl = (\<forall>batch vs. cl batch = Inr vs \<longrightarrow> length vs = length batch)"

section \<open>Example data\<close>

text \<open>A provider that rejects every batch holding the text \<open>bad\<close>.\<close>

definition flaky_client :: client where
  "flaky_client batch =
     (if ''bad'' \<in> set batch then Inl (ProviderError ''quota exceeded'')
      else Inr (map (\<lambda>t. [real (length t)]) batch))"

text \<open>Console input: a blank line, then \<open>QUIT\<close> between spaces, then the end of input.\<close>

definition blank_then_quit :: "nat \<Rightarrow> input_event" where
  "blank_then_quit n =
     (if n = 0 then Line ''   '' else if n = 1 then Line ''  QUIT '' else EndOfInput)"

text \<open>The similarity of the spec, computed exactly, with the insertion sort.\<close>

definition demo_lib :: library where
  "demo_lib = \<lparr>cosine_similarity = spec_cosine, argsort = stable_argsort\<rparr>"

definition failing_client :: client where
  "failing_client batch = Inl (ProviderError ''rate limit'')"

definition demo_engine :: engine where
  "demo_engine =
     \<lparr>vectors_file = ''aven_faq_vectors.json'',
      vectors = [[1, 0], [0, 1], [1, 0]],
      questions = [''q0'', ''q1'', ''q2''],
      answers = [''a0'', ''a1'', ''a2''],
      sections = [''s0'', ''s1'', ''s2'']\<rparr>"

definition empty_engine :: engine where
  "empty_engine =
     \<lparr>vectors_file = ''aven_faq_vectors.json'', vectors = [], questions = [], answers = [],
      sections = []\<rparr>"

definition meta :: "string \<Rightarrow> string \<Rightarrow> string \<Rightarrow> (string \<rightharpoonup> string)" where
  "meta q a s = [''section'' \<mapsto> s, ''question'' \<mapsto> q, ''answer'' \<mapsto> a]"

text \<open>A snapshot whose second embedding is shorter than the first.\<close>

definition ragged_data :: "item list" where
  "ragged_data =
     [\<lparr>item_values = Some [1, 0], item_metadata = Some (meta ''q0'' ''a0'' ''s0'')\<rparr>,
      \<lparr>item_values = Some [1], item_metadata = Some (meta ''q1'' ''a1'' ''s1'')\<rparr>]"

text \<open>A snapshot whose second entry has no \<open>values\<close> key.\<close>

definition holed_data :: "item list" where
  "holed_data =
     [\<lparr>item_values = Some [1, 0], item_metadata = Some (meta ''q0'' ''a0'' ''s0'')\<rparr>,
      \<lparr>item_values = None, item_metadata = Some (meta ''q1'' ''a1'' ''s1'')\<rparr>]"

text \<open>An entry \<open>load_vectors\<close> can read completely.\<close>

definition complete_item :: "item \<Rightarrow> bool" where
  "complete_item it =
     (item_values it \<noteq> None
      \<and> (case item_metadata it of
            None \<Rightarrow> False
          | Some m \<Rightarrow> m ''question'' \<noteq> None \<and> m ''answer'' \<noteq> None \<and> m ''section'' \<noteq> None))"

section \<open>Auxiliary facts\<close>

subsection \<open>The comprehension\<close>

lemma collect_length: "collect f xs = Inr ys \<Longrightarrow> length ys = length xs"
  by (induction xs arbitrary: ys) (auto split: sum.splits)

lemma collect_nth:
  "collect f xs = Inr ys \<Longrightarrow> i < length xs \<Longrightarrow> f (xs ! i) = Inr (ys ! i)"
proof (induction xs arbitrary: ys i)
  case Nil
  then show ?case by simp
next
  case (Cons x xs)
  then show ?case by (cases i) (auto split: sum.splits)
qed

lemma collect_all_ok:
  "list_all (\<lambda>x. f x = Inr (g x)) xs \<Longrightarrow> collect f xs = Inr (map g xs)"
  by (induction xs) auto

subsection \<open>Sorting indices\<close>

lemma length_argsort: "argsort_ok lib xs \<Longrightarrow> length (argsort lib xs) = length xs"
  using distinct_card [of "argsort lib xs"] by (simp add: argsort_ok_def)

lemma set_argsort: "argsort_ok lib xs \<Longrightarrow> set (argsort lib xs) = {0..<length xs}"
  by (simp add: argsort_ok_def)

lemma stable_argsort_ok: "argsort lib = stable_argsort \<Longrightarrow> argsort_ok lib xs"
  by (simp add: argsort_ok_def stable_argsort_def)

lemma top_indices_descending:
  assumes "argsort_ok lib sims"
  shows "sorted_wrt (\<lambda>i j. sims ! j \<le> sims ! i) (top_indices lib sims top_k)"
proof -
  have "sorted_wrt (\<lambda>i j. sims ! i \<le> sims ! j) (argsort lib sims)"
    using assms by (simp add: argsort_ok_def sorted_map)
  then show ?thesis
    by (simp add: top_indices_def slice_to_def sorted_wrt_rev)
qed

lemma set_top_indices:
  assumes "argsort_ok lib sims"
  shows "set (top_indices lib sims top_k) \<subseteq> {0..<length sims}"
proof -
  have "set (top_indices lib sims top_k) \<subseteq> set (rev (argsort lib sims))"
    unfolding top_indices_def slice_to_def by (auto dest: in_set_takeD)
  then show ?thesis using assms by (simp add: set_argsort)
qed

lemma top_indices_all:
  "argsort_ok lib sims \<Longrightarrow> int (length sims) \<le> top_k \<Longrightarrow>
     top_indices lib sims top_k = rev (argsort lib sims)"
  by (simp add: top_indices_def slice_to_def length_argsort)



subsection \<open>Building the results\<close>

lemma build_results_eq:
  assumes "aligned eng" and "length sims = length (vectors eng)"
    and "set idxs \<subseteq> {0..<length sims}"
  shows "build_results eng sims idxs acc =
           Inr (acc @ map (\<lambda>(n, idx). make_result eng sims n idx) (enumerate (length acc) idxs))"
  using assms(3)
proof (induction idxs arbitrary: acc)
  case Nil
  then show ?case by simp
next
  case (Cons idx rest)
  have "idx < length sims" using Cons.prems by simp
  then have ok: "idx < length (questions eng) \<and> idx < length (answers eng)
      \<and> idx < length (sections eng) \<and> idx < length sims"
    using assms(1,2) by (simp add: aligned_def)
  have "set rest \<subseteq> {0..<length sims}" using Cons.prems by simp
  from Cons.IH [OF this] ok show ?case by simp
qed

lemma search_vector_eq:
  assumes "aligned eng" and "similarities lib q (vectors eng) = Inr sims"
    and "argsort_ok lib sims"
  shows "search_vector lib eng q top_k = Inr (results_of eng sims (top_indices lib sims top_k))"
proof -
  have len: "length sims = length (vectors eng)"
    using assms(2) by (simp add: similarities_def collect_length)
  show ?thesis
    using build_results_eq [OF assms(1) len set_top_indices [OF assms(3)], of top_k "[]"] assms(2)
    by (simp add: search_vector_def results_of_def)
qed

lemma length_results_of: "length (results_of eng sims idxs) = length idxs"
  by (simp add: results_of_def)

lemma results_of_nth:
  "n < length idxs \<Longrightarrow>
     results_of eng sims idxs ! n =
       \<lparr>rank = n + 1, question = questions eng ! (idxs ! n), answer = answers eng ! (idxs ! n),
        section_name = sections eng ! (idxs ! n), similarity_score = sims ! (idxs ! n),
        similarity_percentage = sims ! (idxs ! n) * 100\<rparr>"
  by (simp add: results_of_def nth_enumerate_eq make_result_def)

subsection \<open>The similarity of the spec\<close>

lemma dot_Nil [simp]: "dot [] b = 0" "dot a [] = 0"
  by (simp_all add: dot_def)

lemma dot_Cons [simp]: "dot (x # a) (y # b) = x * y + dot a b"
  by (simp add: dot_def)

lemma dot_zero_right: "list_all (\<lambda>x. x = 0) b \<Longrightarrow> dot a b = 0"
proof (induction a arbitrary: b)
  case Nil
  then show ?case by simp
next
  case (Cons x a)
  then show ?case by (cases b) auto
qed


lemma l2_norm_replicate_zero: "l2_norm (replicate n 0) = 0"
  by (simp add: l2_norm_def dot_zero_right list_all_iff)


lemma spec_cosine_zero_norm:
  "length a = length b \<Longrightarrow> l2_norm a = 0 \<or> l2_norm b = 0 \<Longrightarrow> spec_cosine a b = Inr 0"
  by (simp add: spec_cosine_def)

subsection \<open>The example store\<close>

lemma demo_argsort_ok: "argsort_ok demo_lib xs"
  by (rule stable_argsort_ok) (simp add: demo_lib_def)

lemma demo_similarities: "similarities demo_lib [1, 0] (vectors demo_engine) = Inr [1, 0, 1]"
  by (simp add: demo_engine_def demo_lib_def similarities_def spec_cosine_def dot_def
      l2_norm_def divide_checked_def)


lemma demo_aligned: "aligned demo_engine"
  by (simp add: demo_engine_def aligned_def)

lemma demo_length: "length (vectors demo_engine) = 3"
  by (simp add: demo_engine_def)

lemma demo_top3: "top_indices demo_lib [1, 0, 1] 3 = [2, 0, 1]"
  by (simp add: top_indices_def demo_lib_def stable_argsort_def slice_to_def)

lemma demo_top5: "top_indices demo_lib [1, 0, 1] 5 = [2, 0, 1]"
  by (simp add: top_indices_def demo_lib_def stable_argsort_def slice_to_def)





subsection \<open>Loading\<close>

lemma collect_values_missing:
  "list_ex (\<lambda>it. item_values it = None) data \<Longrightarrow> collect get_values data = Inl (KeyError ''values'')"
  by (induction data) (auto simp: get_values_def split: option.splits sum.splits)

lemma complete_values: "complete_item it \<Longrightarrow> get_values it = Inr (the (item_values it))"
  by (auto simp: complete_item_def get_values_def split: option.splits)

lemma complete_meta:
  "complete_item it \<Longrightarrow> k \<in> {''question'', ''answer'', ''section''} \<Longrightarrow>
     get_meta k it = Inr (the (the (item_metadata it) k))"
  by (auto simp: complete_item_def get_meta_def split: option.splits)

lemma collect_complete_values:
  "list_all complete_item data \<Longrightarrow> collect get_values data = Inr (map (\<lambda>it. the (item_values it)) data)"
  by (intro collect_all_ok) (auto simp: list_all_iff complete_values)

lemma collect_complete_meta:
  "list_all complete_item data \<Longrightarrow> k \<in> {''question'', ''answer'', ''section''} \<Longrightarrow>
     collect (get_meta k) data = Inr (map (\<lambda>it. the (the (item_metadata it) k)) data)"
  by (intro collect_all_ok) (auto simp: list_all_iff complete_meta)

subsection \<open>Batch embedding\<close>

lemma embed_loop_stop: "\<not> i < length qs \<Longrightarrow> embed_loop cl qs i E L = (E, L)"
  by (subst embed_loop.simps) simp

lemma embed_loop_step:
  "i < length qs \<Longrightarrow>
     embed_loop cl qs i E L =
       embed_loop cl qs (i + batch_size)
         (E @ (case cl (take batch_size (drop i qs)) of
                 Inr vs \<Rightarrow> vs
               | Inl e \<Rightarrow> replicate (length (take batch_size (drop i qs))) zero_embedding))
         (L @ [case cl (take batch_size (drop i qs)) of
                 Inr vs \<Rightarrow> Embedded (i div batch_size + 1)
                            ((length qs + batch_size - 1) div batch_size)
               | Inl e \<Rightarrow> EmbedError (i div batch_size + 1) e])"
  by (subst embed_loop.simps) (simp split: sum.splits)

lemma filled_length:
  "well_behaved cl \<Longrightarrow>
     length (case cl b of Inr vs \<Rightarrow> vs | Inl e \<Rightarrow> replicate (length b) zero_embedding)
       = length b"
  by (auto simp: well_behaved_def split: sum.splits)

lemma embed_loop_length:
  assumes "well_behaved cl"
  shows "length (fst (embed_loop cl qs i E L)) = length E + (length qs - i)"
proof (induction "length qs - i" arbitrary: i E L rule: less_induct)
  case less
  show ?case
  proof (cases "i < length qs")
    case False
    then show ?thesis by (simp add: embed_loop_stop)
  next
    case True
    let ?b = "take batch_size (drop i qs)"
    let ?fill = "case cl ?b of Inr vs \<Rightarrow> vs
                 | Inl e \<Rightarrow> replicate (length ?b) zero_embedding"
    have dec: "length qs - (i + batch_size) < length qs - i"
      using True by (simp add: batch_size_def)
    have lf: "length ?fill = min batch_size (length qs - i)"
      using filled_length [OF assms, of ?b] by simp
    have "length (fst (embed_loop cl qs i E L))
        = length (E @ ?fill) + (length qs - (i + batch_size))"
      using less [OF dec] by (simp add: embed_loop_step [OF True])
    also have "\<dots> = length E + (length qs - i)"
      using True lf by (simp add: min_def)
    finally show ?thesis .
  qed
qed

lemma calls_arith:
  assumes "i < n"
  shows "Suc ((n - (i + batch_size) + batch_size - 1) div batch_size)
           = (n - i + batch_size - 1) div batch_size"
proof (cases "i + 100 \<le> n")
  case True
  then have "n - i + 99 = (n - (i + 100) + 99) + 100" by simp
  then have "Suc ((n - (i + 100) + 99) div 100) = (n - i + 99) div 100"
    by (simp only: div_add_self2)
  then show ?thesis using True by (simp add: batch_size_def)
next
  case False
  with assms have "n - (i + 100) = 0" and "100 \<le> n - i + 99" and "n - i + 99 < 200"
    by simp_all
  then have "Suc ((n - (i + 100) + 99) div 100) = (n - i + 99) div 100" by simp
  then show ?thesis using False assms by (simp add: batch_size_def)
qed

lemma embed_loop_calls:
  "length (snd (embed_loop cl qs i E L))
     = length L + (length qs - i + batch_size - 1) div batch_size"
proof (induction "length qs - i" arbitrary: i E L rule: less_induct)
  case less
  show ?case
  proof (cases "i < length qs")
    case False
    then show ?thesis by (simp add: embed_loop_stop batch_size_def)
  next
    case True
    have dec: "length qs - (i + batch_size) < length qs - i"
      using True by (simp add: batch_size_def)
    have "length (snd (embed_loop cl qs i E L))
        = Suc (length L) + (length qs - (i + batch_size) + batch_size - 1) div batch_size"
      using less [OF dec] by (simp add: embed_loop_step [OF True])
    also have "\<dots> = length L + (length qs - i + batch_size - 1) div batch_size"
      using calls_arith [OF True, of ] by simp
    finally show ?thesis .
  qed
qed

lemma embed_loop_prefix:
  "k < length E \<Longrightarrow> fst (embed_loop cl qs i E L) ! k = E ! k"
proof (induction "length qs - i" arbitrary: i E L rule: less_induct)
  case less
  show ?case
  proof (cases "i < length qs")
    case False
    then show ?thesis by (simp add: embed_loop_stop)
  next
    case True
    then have "length qs - (i + batch_size) < length qs - i"
      by (simp add: batch_size_def)
    from less(1) [OF this] less(2) True show ?thesis
      by (simp add: embed_loop_step [OF True] nth_append)
  qed
qed

lemma embed_loop_log_mono:
  "x \<in> set L \<Longrightarrow> x \<in> set (snd (embed_loop cl qs i E L))"
proof (induction "length qs - i" arbitrary: i E L rule: less_induct)
  case less
  show ?case
  proof (cases "i < length qs")
    case False
    then show ?thesis using less(2) by (simp add: embed_loop_stop)
  next
    case True
    then have "length qs - (i + batch_size) < length qs - i"
      by (simp add: batch_size_def)
    from less(1) [OF this] less(2) True show ?thesis
      by (simp add: embed_loop_step [OF True])
  qed
qed

lemma batch_arith:
  assumes "i mod 100 = 0" and "i \<le> k" and "k < i + 100"
  shows "k div 100 * 100 = i \<and> k mod 100 = k - (i::nat) \<and> k div 100 = i div 100"
proof -
  from assms(1) obtain q where q: "i = q * 100"
    by (auto simp: mod_eq_0_iff_dvd)
  define r where "r = k - i"
  have k: "k = r + q * 100" and r: "r < 100"
    using assms(2,3) q by (simp_all add: r_def)
  have d: "k div 100 = q" using r by (simp add: k)
  have m: "k mod 100 = r" using r by (simp add: k)
  show ?thesis using d m q by (simp add: r_def)
qed

lemma embed_loop_slot:
  assumes "well_behaved cl"
  shows "length E = i \<Longrightarrow> i mod batch_size = 0 \<Longrightarrow> i \<le> k \<Longrightarrow> k < length qs \<Longrightarrow>
     (case cl (take batch_size (drop (k div batch_size * batch_size) qs)) of
        Inr vs \<Rightarrow> fst (embed_loop cl qs i E L) ! k = vs ! (k mod batch_size)
      | Inl e \<Rightarrow> fst (embed_loop cl qs i E L) ! k = zero_embedding
          \<and> EmbedError (k div batch_size + 1) e \<in> set (snd (embed_loop cl qs i E L)))"
proof (induction "length qs - i" arbitrary: i E L rule: less_induct)
  case less
  have True: "i < length qs" using less.prems by simp
  let ?b = "take batch_size (drop i qs)"
  let ?fill = "case cl ?b of Inr vs \<Rightarrow> vs
               | Inl e \<Rightarrow> replicate (length ?b) zero_embedding"
  let ?line = "case cl ?b of
                 Inr vs \<Rightarrow> Embedded (i div batch_size + 1)
                            ((length qs + batch_size - 1) div batch_size)
               | Inl e \<Rightarrow> EmbedError (i div batch_size + 1) e"
  have step: "embed_loop cl qs i E L = embed_loop cl qs (i + batch_size) (E @ ?fill) (L @ [?line])"
    by (rule embed_loop_step [OF True])
  have lf: "length ?fill = min batch_size (length qs - i)"
    using filled_length [OF assms, of ?b] by simp
  have dec: "length qs - (i + batch_size) < length qs - i"
    using True by (simp add: batch_size_def)
  show ?case
  proof (cases "k < i + batch_size")
    case near: True
    have ar: "k div batch_size * batch_size = i" "k mod batch_size = k - i"
      "k div batch_size = i div batch_size"
      using batch_arith [of i k] less.prems near by (simp_all add: batch_size_def)
    have kl: "k < length (E @ ?fill)"
      using less.prems near lf by (simp add: min_def)
    have at: "fst (embed_loop cl qs i E L) ! k = ?fill ! (k - i)"
      using embed_loop_prefix [OF kl] less.prems by (simp add: step nth_append)
    have same: "take batch_size (drop (k div batch_size * batch_size) qs) = ?b"
      by (simp only: ar(1))
    show ?thesis
    proof (cases "cl ?b")
      case (Inr vs)
      have "fst (embed_loop cl qs i E L) ! k = vs ! (k mod batch_size)"
        using at Inr by (simp only: ar(2) sum.case)
      then show ?thesis by (simp only: same Inr sum.case)
    next
      case (Inl e)
      have "k - i < length ?b" using less.prems near by auto
      then have z: "fst (embed_loop cl qs i E L) ! k = zero_embedding"
        using at Inl by simp
      have "EmbedError (k div batch_size + 1) e \<in> set (L @ [?line])"
        using Inl ar(3) by simp
      then have "EmbedError (k div batch_size + 1) e \<in> set (snd (embed_loop cl qs i E L))"
        unfolding step by (rule embed_loop_log_mono)
      with z show ?thesis by (simp only: same Inl sum.case) 
    qed
  next
    case far: False
    then have "length (E @ ?fill) = i + batch_size"
      using less.prems lf by (simp add: min_def)
    moreover have "(i + batch_size) mod batch_size = 0" using less.prems by simp
    moreover have "i + batch_size \<le> k" using far by simp
    ultimately show ?thesis
      using less.hyps [OF dec, of "E @ ?fill" "L @ [?line]"] less.prems(4)
      by (simp only: step)
  qed
qed

lemma flaky_well_behaved: "well_behaved flaky_client"
  by (simp add: well_behaved_def flaky_client_def)

lemma flaky_run:
  "create_embeddings flaky_client [''a'', ''bad'', ''c'']
     = ([zero_embedding, zero_embedding, zero_embedding],
        [EmbedError 1 (ProviderError ''quota exceeded'')])"
  by (simp add: create_embeddings_def embed_loop_step embed_loop_stop batch_size_def
      flaky_client_def)

subsection \<open>The interactive loop\<close>

lemma strip_blank: "strip ''   '' = []"
  by (simp add: strip_def isspace_def)

lemma strip_quit: "strip ''  QUIT '' = ''QUIT''"
  by (simp add: strip_def isspace_def)

lemma lower_quit: "lower ''QUIT'' = ''quit''"
  by code_simp

section \<open>Properties\<close>

text \<open>
  C1 (as amended). Whenever the similarities are computed and \<open>np.argsort\<close> returns the
  indices in ascending order of score, \<open>search\<close> returns the selected records in
  non-increasing order of score: each result carries the record of the index selected
  for its position, and a later result never has a higher score than an earlier one.
  The order among records of equal score is whatever the library's sort gives,
  reversed; the lower index is not preferred.
\<close>

theorem search_order:
  assumes "aligned eng" and "similarities lib q (vectors eng) = Inr sims"
    and "argsort_ok lib sims" and "m < n" and "n < length (top_indices lib sims top_k)"
  shows "\<exists>rs ti. search_vector lib eng q top_k = Inr rs \<and> ti = top_indices lib sims top_k
     \<and> length rs = length ti
     \<and> rs ! m = \<lparr>rank = m + 1, question = questions eng ! (ti ! m),
                 answer = answers eng ! (ti ! m), section_name = sections eng ! (ti ! m),
                 similarity_score = sims ! (ti ! m),
                 similarity_percentage = sims ! (ti ! m) * 100\<rparr>
     \<and> rs ! n = \<lparr>rank = n + 1, question = questions eng ! (ti ! n),
                 answer = answers eng ! (ti ! n), section_name = sections eng ! (ti ! n),
                 similarity_score = sims ! (ti ! n),
                 similarity_percentage = sims ! (ti ! n) * 100\<rparr>
     \<and> similarity_score (rs ! n) \<le> similarity_score (rs ! m)"
proof -
  let ?ti = "top_indices lib sims top_k"
  let ?rs = "results_of eng sims ?ti"
  have m: "m < length ?ti" using assms(4,5) by simp
  have "sims ! (?ti ! n) \<le> sims ! (?ti ! m)"
    using top_indices_descending [OF assms(3)] assms(4,5) by (rule sorted_wrt_nth_less)
  moreover have "search_vector lib eng q top_k = Inr ?rs"
    using assms(1,2,3) by (rule search_vector_eq)
  ultimately show ?thesis
    using results_of_nth [OF m, of eng sims] results_of_nth [OF assms(5), of eng sims]
    by (simp add: length_results_of)
qed

text \<open>The example store: R1, with score 0, comes after a record with score 1.\<close>

theorem search_order_witness:
  "aligned demo_engine \<and> similarities demo_lib [1, 0] (vectors demo_engine) = Inr [1, 0, 1]
   \<and> argsort_ok demo_lib [1, 0, 1] \<and> (1::nat) < 2
   \<and> 2 < length (top_indices demo_lib [1, 0, 1] 3)
   \<and> (\<exists>rs. search_vector demo_lib demo_engine [1, 0] 3 = Inr rs \<and> length rs = 3
        \<and> question (rs ! 2) = ''q1'' \<and> similarity_score (rs ! 2) = 0
        \<and> similarity_score (rs ! 1) = 1
        \<and> similarity_score (rs ! 2) \<le> similarity_score (rs ! 1))"
  using search_order [OF demo_aligned demo_similarities demo_argsort_ok, of 1 2 3]
    demo_aligned demo_similarities demo_argsort_ok [of "[1, 0, 1]"]
  by (simp add: demo_top3) (auto simp: demo_engine_def)

text \<open>
  C1 as stated fails: with the sort that leaves equal scores in index order, the
  example store gives R2 (index 2) before R0 (index 0), both with score 1.
\<close>

theorem tie_break_counterexample:
  "search_vector demo_lib demo_engine [1, 0] 3 =
     Inr [\<lparr>rank = 1, question = ''q2'', answer = ''a2'', section_name = ''s2'',
           similarity_score = 1, similarity_percentage = 100\<rparr>,
          \<lparr>rank = 2, question = ''q0'', answer = ''a0'', section_name = ''s0'',
           similarity_score = 1, similarity_percentage = 100\<rparr>,
          \<lparr>rank = 3, question = ''q1'', answer = ''a1'', section_name = ''s1'',
           similarity_score = 0, similarity_percentage = 0\<rparr>]"
  using demo_similarities
  by (simp add: search_vector_def demo_top3 make_result_def) (simp add: demo_engine_def)




text \<open>
  C3. For a store whose lists are aligned and a query whose similarities are computed,
  every \<open>top_k\<close> that is at least the size of the store gives exactly one result per
  record, with no padding: the selected indices are distinct and are exactly
  \<open>0..<size\<close>, there are \<open>size\<close> results, and the result at each position holds the
  question, answer and section of the record selected for it, with that record's
  similarity to the query as its score.
\<close>

theorem search_all_records:
  assumes "aligned eng" and "similarities lib q (vectors eng) = Inr sims"
    and "argsort_ok lib sims" and "int (length (vectors eng)) \<le> top_k"
  shows "\<exists>rs ti. search_vector lib eng q top_k = Inr rs \<and> ti = top_indices lib sims top_k
     \<and> length rs = length (vectors eng)
     \<and> distinct ti \<and> set ti = {0..<length (vectors eng)}
     \<and> (\<forall>n < length (vectors eng).
          rs ! n = \<lparr>rank = n + 1, question = questions eng ! (ti ! n),
                    answer = answers eng ! (ti ! n), section_name = sections eng ! (ti ! n),
                    similarity_score = sims ! (ti ! n),
                    similarity_percentage = sims ! (ti ! n) * 100\<rparr>
          \<and> cosine_similarity lib q (vectors eng ! (ti ! n)) = Inr (similarity_score (rs ! n)))"
proof -
  let ?ti = "top_indices lib sims top_k"
  let ?rs = "results_of eng sims ?ti"
  have len: "length sims = length (vectors eng)"
    using assms(2) by (simp add: similarities_def collect_length)
  have ti: "?ti = rev (argsort lib sims)"
    using assms(3,4) len by (simp add: top_indices_all)
  have lti: "length ?ti = length (vectors eng)"
    using assms(3) by (simp add: ti length_argsort len)
  have set_ti: "set ?ti = {0..<length (vectors eng)}"
    using assms(3) by (simp add: ti set_argsort len)
  have dist: "distinct ?ti" using assms(3) by (simp add: ti argsort_ok_def)
  have run: "search_vector lib eng q top_k = Inr ?rs"
    using assms(1,2,3) by (rule search_vector_eq)
  have each: "?rs ! n = \<lparr>rank = n + 1, question = questions eng ! (?ti ! n),
                    answer = answers eng ! (?ti ! n), section_name = sections eng ! (?ti ! n),
                    similarity_score = sims ! (?ti ! n),
                    similarity_percentage = sims ! (?ti ! n) * 100\<rparr>
          \<and> cosine_similarity lib q (vectors eng ! (?ti ! n)) = Inr (similarity_score (?rs ! n))"
    if n: "n < length (vectors eng)" for n
  proof -
    have nl: "n < length ?ti" using n lti by simp
    then have "?ti ! n \<in> set ?ti" by (rule nth_mem)
    then have "?ti ! n < length (vectors eng)" using set_ti by simp
    then have "cosine_similarity lib q (vectors eng ! (?ti ! n)) = Inr (sims ! (?ti ! n))"
      using assms(2) unfolding similarities_def by (rule collect_nth [rotated])
    then show ?thesis using results_of_nth [OF nl, of eng sims] by simp
  qed
  show ?thesis
    using run lti dist set_ti each by (auto simp: length_results_of)
qed

theorem search_all_records_witness:
  "aligned demo_engine \<and> similarities demo_lib [1, 0] (vectors demo_engine) = Inr [1, 0, 1]
   \<and> argsort_ok demo_lib [1, 0, 1] \<and> int (length (vectors demo_engine)) \<le> 5
   \<and> (\<exists>rs ti. search_vector demo_lib demo_engine [1, 0] 5 = Inr rs \<and> ti = [2, 0, 1 :: nat]
        \<and> length rs = 3 \<and> distinct ti \<and> set ti = {0..<3}
        \<and> question (rs ! 0) = ''q2'' \<and> question (rs ! 1) = ''q0''
        \<and> question (rs ! 2) = ''q1'')"
proof -
  from search_all_records
    [OF demo_aligned demo_similarities demo_argsort_ok, of 5]
  obtain rs where run: "search_vector demo_lib demo_engine [1, 0] 5 = Inr rs"
    and len: "length rs = 3"
    and dist: "distinct (top_indices demo_lib [1, 0, 1] 5)"
    and st: "set (top_indices demo_lib [1, 0, 1] 5) = {0..<3}"
    and each: "\<forall>n<3. question (rs ! n)
        = questions demo_engine ! (top_indices demo_lib [1, 0, 1] 5 ! n)"
    by (auto simp: demo_length)
  have "question (rs ! 0) = ''q2''" "question (rs ! 1) = ''q0''" "question (rs ! 2) = ''q1''"
    using each by (simp_all add: demo_top5 demo_engine_def)
  then show ?thesis
    using run len dist st demo_aligned demo_similarities demo_argsort_ok [of "[1, 0, 1]"]
    by (simp add: demo_top5 demo_length)
qed

text \<open>
  C4. For a query and an embedding of one dimension, if either has zero norm the
  similarity is the value 0; the all-zero embedding scores 0 against every query; and
  the similarity is always a value, so the division by the product of the norms never
  fails. In the loop of \<open>search\<close>, a stored record with zero norm gets the score 0.
\<close>

theorem zero_norm_scores_zero:
  assumes "length a = length b"
  shows "(l2_norm a = 0 \<or> l2_norm b = 0 \<longrightarrow> spec_cosine a b = Inr 0)
     \<and> spec_cosine a (replicate (length a) 0) = Inr 0
     \<and> (\<exists>s. spec_cosine a b = Inr s)
     \<and> (cosine_similarity lib = spec_cosine \<and> similarities lib a vs = Inr sims
          \<and> i < length vs \<and> l2_norm (vs ! i) = 0 \<longrightarrow> sims ! i = 0)"
proof (intro conjI impI)
  assume "l2_norm a = 0 \<or> l2_norm b = 0"
  with assms show "spec_cosine a b = Inr 0" by (rule spec_cosine_zero_norm)
next
  show "spec_cosine a (replicate (length a) 0) = Inr 0"
    by (simp add: spec_cosine_zero_norm l2_norm_replicate_zero)
next
  show "\<exists>s. spec_cosine a b = Inr s"
  proof (cases "l2_norm a = 0 \<or> l2_norm b = 0")
    case True
    then show ?thesis using assms by (simp add: spec_cosine_zero_norm)
  next
    case False
    then have "l2_norm a * l2_norm b \<noteq> 0" by simp
    then show ?thesis using assms False by (simp add: spec_cosine_def divide_checked_def)
  qed
next
  assume h: "cosine_similarity lib = spec_cosine \<and> similarities lib a vs = Inr sims
      \<and> i < length vs \<and> l2_norm (vs ! i) = 0"
  then have eq: "cosine_similarity lib = spec_cosine"
    and col: "similarities lib a vs = Inr sims" and i: "i < length vs"
    by blast+
  have c: "spec_cosine a (vs ! i) = Inr (sims ! i)"
    using collect_nth [OF col [unfolded similarities_def eq] i] .
  then have "length a = length (vs ! i)"
    by (auto simp: spec_cosine_def split: if_splits)
  then have "spec_cosine a (vs ! i) = Inr 0"
    using h by (simp add: spec_cosine_zero_norm)
  with c show "sims ! i = 0" by simp
qed

theorem zero_norm_scores_zero_witness:
  "length [1, 0 :: real] = length [0, 0 :: real] \<and> l2_norm [0, 0] = 0
   \<and> spec_cosine [1, 0] [0, 0] = Inr 0
   \<and> cosine_similarity demo_lib = spec_cosine
   \<and> similarities demo_lib [1, 0] [[0, 0], [1, 0]] = Inr [0, 1]
   \<and> (0::nat) < length [[0, 0], [1, 0 :: real]] \<and> l2_norm ([[0, 0], [1, 0]] ! 0) = 0
   \<and> [0, 1 :: real] ! 0 = 0"
proof -
  have n: "l2_norm [0, 0] = 0" by (simp add: l2_norm_def)
  have s: "similarities demo_lib [1, 0] [[0, 0], [1, 0]] = Inr [0, 1]"
    by (simp add: demo_lib_def similarities_def spec_cosine_def dot_def l2_norm_def
        divide_checked_def)
  have l: "cosine_similarity demo_lib = spec_cosine" by (simp add: demo_lib_def)
  show ?thesis
    using zero_norm_scores_zero
      [where a = "[1, 0]" and b = "[0, 0]" and lib = demo_lib and vs = "[[0, 0], [1, 0]]"
         and sims = "[0, 1]" and i = 0] n s l
    by simp
qed

text \<open>
  C5 (as amended). When some entry of the snapshot has no embedding, \<open>load_vectors\<close>
  raises \<open>KeyError\<close> and leaves the engine as it was, and \<open>__init__\<close> yields no engine.
  Embedding lengths are not compared at load time: a snapshot whose entries all have
  an embedding and the three metadata keys is loaded completely, in order, whatever
  the lengths of the embeddings.
\<close>

theorem load_aborts_or_completes:
  "(list_ex (\<lambda>it. item_values it = None) data \<longrightarrow>
      load_vectors (Inr data) eng = (Some (KeyError ''values''), eng)
      \<and> init_engine file api_key (Inr data) \<noteq> Inr eng')
   \<and> (list_all complete_item data \<longrightarrow>
        load_vectors (Inr data) eng =
          (None, eng\<lparr>vectors := map (\<lambda>it. the (item_values it)) data,
                     questions := map (\<lambda>it. the (the (item_metadata it) ''question'')) data,
                     answers := map (\<lambda>it. the (the (item_metadata it) ''answer'')) data,
                     sections := map (\<lambda>it. the (the (item_metadata it) ''section'')) data\<rparr>))"
proof (intro conjI impI)
  assume h: "list_ex (\<lambda>it. item_values it = None) data"
  then show "load_vectors (Inr data) eng = (Some (KeyError ''values''), eng)"
    by (simp add: load_vectors_def collect_values_missing)
  from h show "init_engine file api_key (Inr data) \<noteq> Inr eng'"
    by (simp add: init_engine_def load_vectors_def collect_values_missing split: option.splits)
next
  assume "list_all complete_item data"
  then show "load_vectors (Inr data) eng =
          (None, eng\<lparr>vectors := map (\<lambda>it. the (item_values it)) data,
                     questions := map (\<lambda>it. the (the (item_metadata it) ''question'')) data,
                     answers := map (\<lambda>it. the (the (item_metadata it) ''answer'')) data,
                     sections := map (\<lambda>it. the (the (item_metadata it) ''section'')) data\<rparr>)"
    by (simp add: load_vectors_def collect_complete_values collect_complete_meta)
qed

theorem load_aborts_or_completes_witness:
  "list_ex (\<lambda>it. item_values it = None) holed_data
   \<and> load_vectors (Inr holed_data) empty_engine = (Some (KeyError ''values''), empty_engine)
   \<and> list_all complete_item ragged_data
   \<and> fst (load_vectors (Inr ragged_data) empty_engine) = None
   \<and> vectors (snd (load_vectors (Inr ragged_data) empty_engine)) = [[1, 0], [1]]"
  using load_aborts_or_completes [of holed_data empty_engine "''f''" None empty_engine]
    load_aborts_or_completes [of ragged_data empty_engine "''f''" None empty_engine]
  by (simp add: holed_data_def ragged_data_def complete_item_def meta_def)

text \<open>
  C5 as stated fails: a snapshot whose second embedding has length 1 after a first of
  length 2 is loaded without error.
\<close>

theorem ragged_load_counterexample:
  "init_engine ''aven_faq_vectors.json'' (Some ''sk-test'') (Inr ragged_data) =
     Inr \<lparr>vectors_file = ''aven_faq_vectors.json'', vectors = [[1, 0], [1]],
          questions = [''q0'', ''q1''], answers = [''a0'', ''a1''], sections = [''s0'', ''s1'']\<rparr>"
  by (simp add: init_engine_def load_vectors_def ragged_data_def get_values_def get_meta_def meta_def)




text \<open>
  C8. When the embedding call for the query raises, \<open>search\<close> raises that same exception
  to its caller; it does not answer with an empty result list (or with any list).
\<close>

theorem search_propagates_embedding_error:
  "cl [query] = Inl e \<Longrightarrow>
     search lib cl eng query top_k = Inl e \<and> search lib cl eng query top_k \<noteq> Inr []"
  by (simp add: search_def embed_query_def)

theorem search_propagates_embedding_error_witness:
  "failing_client [''how do I pay''] = Inl (ProviderError ''rate limit'')
   \<and> search demo_lib failing_client demo_engine ''how do I pay'' 3
       = Inl (ProviderError ''rate limit'')"
  using search_propagates_embedding_error
          [of failing_client "''how do I pay''" "ProviderError ''rate limit''" demo_lib
             demo_engine 3]
  by (simp add: failing_client_def)

text \<open>
  C9. For a provider that answers a batch with one vector per text, \<open>create_embeddings\<close>
  returns as many vectors as there are texts, in order: the slot of text \<open>k\<close> holds the
  vector the provider gave for it in its batch, the batch being the texts from
  \<open>k div 100 * 100\<close> on, at most 100 of them. When the provider raises on that batch,
  the slot holds the zero vector of length 1536, the run goes on, and a line with the
  batch number and the exception is printed. One line is printed per batch. (The loop
  of embed\_aven\_faq\_enhanced.py differs only in the wording of what it prints.)
\<close>

theorem create_embeddings_slots:
  assumes "well_behaved cl"
  shows "length (fst (create_embeddings cl qs)) = length qs
     \<and> length (snd (create_embeddings cl qs)) = (length qs + batch_size - 1) div batch_size
     \<and> zero_embedding = replicate 1536 0
     \<and> (\<forall>k < length qs.
          length (take batch_size (drop (k div batch_size * batch_size) qs)) \<le> 100
          \<and> (case cl (take batch_size (drop (k div batch_size * batch_size) qs)) of
               Inr vs \<Rightarrow> fst (create_embeddings cl qs) ! k = vs ! (k mod batch_size)
             | Inl e \<Rightarrow> fst (create_embeddings cl qs) ! k = zero_embedding
                  \<and> EmbedError (k div batch_size + 1) e \<in> set (snd (create_embeddings cl qs))))"
proof (intro conjI allI impI)
  show "length (fst (create_embeddings cl qs)) = length qs"
    using embed_loop_length [OF assms, of qs 0 "[]" "[]"] by (simp add: create_embeddings_def)
next
  show "length (snd (create_embeddings cl qs)) = (length qs + batch_size - 1) div batch_size"
    using embed_loop_calls [of cl qs 0 "[]" "[]"] by (simp add: create_embeddings_def)
next
  show "zero_embedding = replicate 1536 0" by (rule zero_embedding_def)
next
  fix k
  show "length (take batch_size (drop (k div batch_size * batch_size) qs)) \<le> 100"
    by (simp add: batch_size_def)
next
  fix k assume "k < length qs"
  then show "case cl (take batch_size (drop (k div batch_size * batch_size) qs)) of
               Inr vs \<Rightarrow> fst (create_embeddings cl qs) ! k = vs ! (k mod batch_size)
             | Inl e \<Rightarrow> fst (create_embeddings cl qs) ! k = zero_embedding
                  \<and> EmbedError (k div batch_size + 1) e \<in> set (snd (create_embeddings cl qs))"
    unfolding create_embeddings_def
    using embed_loop_slot [OF assms, of "[]" 0 k qs "[]"] by simp
qed

text \<open>Three texts in one batch that the provider rejects: three zero vectors, one error line.\<close>

theorem create_embeddings_slots_witness:
  "well_behaved flaky_client
   \<and> flaky_client [''a'', ''bad'', ''c''] = Inl (ProviderError ''quota exceeded'')
   \<and> create_embeddings flaky_client [''a'', ''bad'', ''c'']
       = ([zero_embedding, zero_embedding, zero_embedding],
          [EmbedError 1 (ProviderError ''quota exceeded'')])
   \<and> length (fst (create_embeddings flaky_client [''a'', ''bad'', ''c''])) = 3
   \<and> fst (create_embeddings flaky_client [''a'', ''bad'', ''c'']) ! 2 = zero_embedding
   \<and> zero_embedding = replicate 1536 0"
proof -
  note T = create_embeddings_slots [OF flaky_well_behaved, of "[''a'', ''bad'', ''c'']"]
  have b: "take batch_size (drop (2 div batch_size * batch_size) [''a'', ''bad'', ''c''])
      = [''a'', ''bad'', ''c'']"
    by (simp add: batch_size_def)
  have f: "flaky_client [''a'', ''bad'', ''c''] = Inl (ProviderError ''quota exceeded'')"
    by (simp add: flaky_client_def)
  have len: "length (fst (create_embeddings flaky_client [''a'', ''bad'', ''c''])) = 3"
    using T by simp
  have z: "zero_embedding = replicate 1536 0" using T by blast
  have "(2::nat) < length [''a'', ''bad'', ''c'']" by simp
  with T have "case flaky_client
        (take batch_size (drop (2 div batch_size * batch_size) [''a'', ''bad'', ''c''])) of
      Inr vs \<Rightarrow> fst (create_embeddings flaky_client [''a'', ''bad'', ''c'']) ! 2
                  = vs ! (2 mod batch_size)
    | Inl e \<Rightarrow> fst (create_embeddings flaky_client [''a'', ''bad'', ''c'']) ! 2 = zero_embedding
        \<and> EmbedError (2 div batch_size + 1) e
             \<in> set (snd (create_embeddings flaky_client [''a'', ''bad'', ''c'']))"
    by blast
  then have "fst (create_embeddings flaky_client [''a'', ''bad'', ''c'']) ! 2 = zero_embedding"
    by (simp only: b f sum.case)
  then show ?thesis
    using flaky_well_behaved f flaky_run len z by blast
qed

text \<open>
  C10. A line that is empty after \<open>strip()\<close> is skipped: the loop prints nothing for it,
  runs no search, does not stop, and goes on to the next \<open>input()\<close>. The words
  \<open>quit\<close>, \<open>exit\<close> and \<open>q\<close> are compared with the stripped, lower-cased line and end the
  loop; every other line is searched for.
\<close>

theorem blank_line_skipped:
  assumes "inp n = Line s"
  shows "(strip s = [] \<longrightarrow>
            interactive_loop lib cl eng inp n out
              = interactive_loop lib cl eng inp (n + 1) (out @ [Prompt]))
     \<and> (lower (strip s) \<in> {''quit'', ''exit'', ''q''} \<longrightarrow>
            interactive_loop lib cl eng inp n out = Some (out @ [Prompt, Goodbye]))
     \<and> (strip s \<noteq> [] \<and> lower (strip s) \<notin> {''quit'', ''exit'', ''q''} \<longrightarrow>
            (\<exists>shown. interactive_loop lib cl eng inp n out
               = interactive_loop lib cl eng inp (n + 1)
                   (out @ Prompt # Searching (strip s) # shown)))"
proof (intro conjI impI)
  assume "strip s = []"
  then show "interactive_loop lib cl eng inp n out
      = interactive_loop lib cl eng inp (n + 1) (out @ [Prompt])"
    using assms by (subst interactive_loop.simps) (simp add: lower_def)
next
  assume "lower (strip s) \<in> {''quit'', ''exit'', ''q''}"
  then show "interactive_loop lib cl eng inp n out = Some (out @ [Prompt, Goodbye])"
    using assms by (subst interactive_loop.simps) auto
next
  assume a: "strip s \<noteq> [] \<and> lower (strip s) \<notin> {''quit'', ''exit'', ''q''}"
  show "\<exists>shown. interactive_loop lib cl eng inp n out
               = interactive_loop lib cl eng inp (n + 1)
                   (out @ Prompt # Searching (strip s) # shown)"
  proof (cases "search lib cl eng (strip s) 3")
    case (Inl e)
    then have "interactive_loop lib cl eng inp n out
        = interactive_loop lib cl eng inp (n + 1)
            (out @ Prompt # Searching (strip s) # [ErrorMsg e, TryAgain])"
      using assms a by (subst interactive_loop.simps) auto
    then show ?thesis by blast
  next
    case (Inr results)
    then have "interactive_loop lib cl eng inp n out
        = interactive_loop lib cl eng inp (n + 1)
            (out @ Prompt # Searching (strip s)
               # [if results = [] then NoResults else Shown results, BlankLine])"
      using assms a by (subst interactive_loop.simps) auto
    then show ?thesis by blast
  qed
qed

theorem blank_line_skipped_witness:
  "blank_then_quit 0 = Line ''   '' \<and> strip ''   '' = []
   \<and> blank_then_quit 1 = Line ''  QUIT '' \<and> lower (strip ''  QUIT '') = ''quit''
   \<and> interactive_search demo_lib failing_client demo_engine blank_then_quit
       = Some [Banner, Prompt, Prompt, Goodbye]"
  using blank_line_skipped
      [of blank_then_quit 0 "''   ''" demo_lib failing_client demo_engine "[Banner]"]
    blank_line_skipped
      [of blank_then_quit 1 "''  QUIT ''" demo_lib failing_client demo_engine
         "[Banner, Prompt]"]
  by (simp add: blank_then_quit_def interactive_search_def strip_blank strip_quit lower_quit)

end
